theory Spec2Isabelle
  imports Main "HOL-Library.Char_ord" "HOL-Library.List_Lexorder"
begin

section \<open>The watermark GUI: main window and droppable list\<close>

text \<open>
  A shallow embedding of \<^verbatim>\<open>src/watermark/gui/app.py\<close>: the class \<^verbatim>\<open>MainWindow\<close>
  (statistics, the cached optimization property, the OK button rule, the update check,
  the batch loop) and the class \<^verbatim>\<open>DroppableQList\<close> (the sorted, duplicate-free list of
  dropped paths).

  The window object, the global settings object \<^verbatim>\<open>CONF\<close>, the part of the file system
  the batch touches and a trace of the calls made to Qt and to the collaborators are
  fields of one record that every method takes and returns. A method that can raise
  returns the exception together with the state reached when it was raised.
\<close>

subsection \<open>Data\<close>

text \<open>
  A path object is represented by the text it prints as. The text of a list item is not yet
  a path: \<^verbatim>\<open>Path(...)\<close> makes one of it, and on the way it may change the text (an empty
  text becomes a dot, repeated separators and dot components go). The file system maps a
  path to the size of the file, as \<^verbatim>\<open>stat().st_size\<close> reports it; a path that is not mapped
  does not exist.
\<close>

type_synonym path = string

type_synonym filesystem = "path \<rightharpoonup> nat"

datatype exn =
    AttributeError string
  | FileNotFoundError path
  | CollaboratorError string

text \<open>The settings object \<^verbatim>\<open>CONF\<close> with the fields the window reads and writes.\<close>

record conf =
  conf_text :: string
  conf_picture :: string
  conf_optimize :: bool
  conf_tinify_key :: string
  conf_update :: bool

text \<open>\<^verbatim>\<open>self.stats = {"count": 0, "size_before": 0, "size_after": 0}\<close>\<close>

record stats =
  count :: int
  size_before :: int
  size_after :: int

text \<open>
  A status bar message: either a text given by the caller, or the statistics line, built
  from the count, the bytes won and, when optimization is in use, the tinify part. The
  translation of the line into words is the translator's.
\<close>

datatype message =
    Text string
  | Statistics int int bool

text \<open>The calls that leave the window: to the collaborators, to the file system, to Qt.\<close>

datatype event =
    ValidateKey string
  | ApplyWatermarks "path list" string string
  | Optimize path
  | Unlink path
  | UpdaterCheck
  | SetEnabled bool
  | ShowMessage message
  | ProcessEvents

text \<open>
  The window. \<open>status_bar\<close> is \<open>None\<close> until \<^verbatim>\<open>_status_bar()\<close> has created the
  attribute, then the message it shows. \<open>text_edit\<close> and \<open>picture_edit\<close> (the texts of the two line edits
  \<^verbatim>\<open>self.text\<close> and \<^verbatim>\<open>self.picture\<close>), \<open>paths_list\<close> and \<open>buttons\<close>
  (whether the OK button is enabled) are created by \<^verbatim>\<open>_window()\<close>; no method reads them
  before. \<open>paths_list\<close> holds the texts of the items of the list widget, in row order.
\<close>

record window =
  CONF :: conf
  files :: filesystem
  trace :: "event list"
  stats :: stats
  cached_use_optimization :: "bool option"
  old_key :: "string option"
  old_state :: "bool option"
  status_bar :: "message option"
  text_edit :: string
  picture_edit :: string
  paths_list :: "string list"
  buttons :: bool

text \<open>
  One element of the sequence that \<^verbatim>\<open>apply_watermarks\<close> generates: the pair it yields
  (the original path, the new path or \<^verbatim>\<open>None\<close>) with what producing it did to the file
  system, or the exception it raised instead.
\<close>

datatype wm_item =
    Yield path "path option" "filesystem \<Rightarrow> filesystem"
  | Raise exn

text \<open>
  The collaborators and constants that are imported from the rest of the package:
  \<^verbatim>\<open>validate_key\<close> and \<^verbatim>\<open>optimize\<close> (optimizer), \<^verbatim>\<open>apply_watermarks\<close> (watermark),
  \<^verbatim>\<open>Updater().check(__version__)\<close> (\<open>None\<close> when it returns, the exception when it
  raises), \<^verbatim>\<open>WINDOWS\<close> (constants) and \<^verbatim>\<open>TR.get("UPDATE_ERROR")\<close> (translator).
  The import of the updater and the construction of \<^verbatim>\<open>Updater()\<close> are taken to succeed.

  With them comes the order in which a sorting list widget keeps its items: an item is less
  than another when its text is, in the comparison of texts that Qt uses for items. It is
  given by \<open>item_key\<close>, a key in some linear order, so that nothing below depends on
  which comparison of texts that is. In the same way \<open>Path\<close> is what \<^verbatim>\<open>pathlib.Path\<close> makes
  of a text on the platform at hand.
\<close>

record 'k collab =
  validate_key :: "string \<Rightarrow> bool"
  optimize :: "path \<Rightarrow> filesystem \<Rightarrow> (exn + path option) \<times> filesystem"
  apply_watermarks :: "path list \<Rightarrow> string \<Rightarrow> string \<Rightarrow> wm_item list"
  updater_check :: "exn option"
  WINDOWS :: bool
  tr_update_error :: string
  item_key :: "string \<Rightarrow> 'k"
  Path :: "string \<Rightarrow> path"

type_synonym 'a outcome = "(exn + 'a) \<times> window"

subsection \<open>The optimization property\<close>

text \<open>
  Lines 107 to 109: remember the key and the toggle, then evaluate
  \<^verbatim>\<open>CONF.optimize and validate_key(self._old_key)\<close>. Python's \<^verbatim>\<open>and\<close> does not call
  \<^verbatim>\<open>validate_key\<close> when the toggle is off.
\<close>

definition use_optimization_refresh :: "'k collab \<Rightarrow> window \<Rightarrow> bool \<times> window" where
  "use_optimization_refresh c w =
     (let k = conf_tinify_key (CONF w);
          s = conf_optimize (CONF w);
          w1 = w\<lparr>old_key := Some k, old_state := Some s\<rparr>
      in if s
         then (let b = validate_key c k
               in (b, w1\<lparr>trace := trace w1 @ [ValidateKey k],
                         cached_use_optimization := Some b\<rparr>))
         else (False, w1\<lparr>cached_use_optimization := Some False\<rparr>))"

definition use_optimization :: "'k collab \<Rightarrow> window \<Rightarrow> bool \<times> window" where
  "use_optimization c w =
     (case cached_use_optimization w of
        None \<Rightarrow> use_optimization_refresh c w
      | Some b \<Rightarrow>
          if Some (conf_tinify_key (CONF w)) \<noteq> old_key w
             \<or> Some (conf_optimize (CONF w)) \<noteq> old_state w
          then use_optimization_refresh c w
          else (b, w))"

subsection \<open>The OK button\<close>

definition button_ok_state :: "window \<Rightarrow> window" where
  "button_ok_state w =
     (let enabled = ((text_edit w \<noteq> [] \<or> picture_edit w \<noteq> []) \<and> length (paths_list w) > 0)
      in w\<lparr>buttons := enabled, trace := trace w @ [SetEnabled enabled]\<rparr>)"

subsection \<open>The status bar\<close>

text \<open>\<^verbatim>\<open>self.status_bar.showMessage(msg)\<close>: an attribute that is not there yet raises.\<close>

definition show_message :: "message \<Rightarrow> window \<Rightarrow> unit outcome" where
  "show_message m w =
     (case status_bar w of
        None \<Rightarrow> (Inl (AttributeError ''status_bar''), w)
      | Some _ \<Rightarrow> (Inr (), w\<lparr>status_bar := Some m, trace := trace w @ [ShowMessage m]\<rparr>))"

definition status_msg :: "'k collab \<Rightarrow> string \<Rightarrow> window \<Rightarrow> unit outcome" where
  "status_msg c msg w =
     (if msg = []
      then (let win = size_before (stats w) - size_after (stats w);
                (use, w1) = use_optimization c w
            in show_message (Statistics (count (stats w)) win use) w1)
      else show_message (Text msg) w)"

definition status_bar_create :: "window \<Rightarrow> window" where
  "status_bar_create w = w\<lparr>status_bar := Some (Text [])\<rparr>"

subsection \<open>The update check\<close>

definition check_for_update :: "'k collab \<Rightarrow> window \<Rightarrow> unit outcome" where
  "check_for_update c w =
     (if \<not> WINDOWS c then (Inr (), w)
      else (let w1 = w\<lparr>trace := trace w @ [UpdaterCheck]\<rparr>
            in case updater_check c of
                 None \<Rightarrow> (Inr (), w1)
               | Some e \<Rightarrow> status_msg c (tr_update_error c) w1))"

subsection \<open>The list of dropped paths\<close>

text \<open>
  \<^verbatim>\<open>any(self.item(i).text() == path for i in range(self.count()))\<close>
\<close>

definition exists :: "window \<Rightarrow> string \<Rightarrow> bool" where
  "exists w p = list_ex (\<lambda>i. paths_list w ! i = p) [0..<length (paths_list w)]"

text \<open>
  \<^verbatim>\<open>addItem\<close> on a list widget with \<^verbatim>\<open>setSortingEnabled(True)\<close>: the item goes to its
  place in ascending order, before the first item that is not less.
\<close>

definition addItem :: "('k::linorder) collab \<Rightarrow> string \<Rightarrow> window \<Rightarrow> window" where
  "addItem c p w = w\<lparr>paths_list := insort_key (item_key c) p (paths_list w)\<rparr>"

text \<open>The loop of \<^verbatim>\<open>dropEvent\<close> over \<^verbatim>\<open>url.toLocalFile()\<close> for the urls of the event.\<close>

fun drop_urls :: "('k::linorder) collab \<Rightarrow> string list \<Rightarrow> window \<Rightarrow> window" where
  "drop_urls c [] w = w"
| "drop_urls c (p # ps) w = drop_urls c ps (if exists w p then w else addItem c p w)"

text \<open>
  \<^verbatim>\<open>hasUrls\<close> is read without being called in the guard of line 299, so the guard never
  returns early; an event without urls has an empty list of urls.
\<close>

definition dropEvent :: "('k::linorder) collab \<Rightarrow> string list \<Rightarrow> window \<Rightarrow> window" where
  "dropEvent c urls w = button_ok_state (drop_urls c urls w)"

subsection \<open>The batch\<close>

text \<open>\<^verbatim>\<open>path.stat().st_size\<close> and \<^verbatim>\<open>path.unlink()\<close>\<close>

definition stat_size :: "path \<Rightarrow> window \<Rightarrow> int outcome" where
  "stat_size p w =
     (case files w p of
        None \<Rightarrow> (Inl (FileNotFoundError p), w)
      | Some n \<Rightarrow> (Inr (int n), w))"

definition unlink :: "path \<Rightarrow> window \<Rightarrow> unit outcome" where
  "unlink p w =
     (case files w p of
        None \<Rightarrow> (Inl (FileNotFoundError p), w)
      | Some _ \<Rightarrow> (Inr (), w\<lparr>files := (files w)(p := None), trace := trace w @ [Unlink p]\<rparr>))"

text \<open>Lines 251 to 257: the path whose size will be recorded as the output.\<close>

definition optimize_step :: "'k collab \<Rightarrow> path \<Rightarrow> window \<Rightarrow> path outcome" where
  "optimize_step c path_new w =
     (let (use, w1) = use_optimization c w
      in if use
         then (let (r, fs1) = optimize c path_new (files w1);
                   w2 = w1\<lparr>files := fs1, trace := trace w1 @ [Optimize path_new]\<rparr>
               in case r of
                    Inl e \<Rightarrow> (Inl e, w2)
                  | Inr None \<Rightarrow> (Inr path_new, w2)
                  | Inr (Some path_new_optimized) \<Rightarrow>
                      (case unlink path_new w2 of
                         (Inl e, w3) \<Rightarrow> (Inl e, w3)
                       | (Inr _, w3) \<Rightarrow> (Inr path_new_optimized, w3)))
         else (Inr path_new, w1))"

text \<open>
  Lines 260 to 266: the statistics, the status bar, the event pump. The count is raised
  before the sizes are read, so a size that cannot be read leaves the count raised. The call
  of \<^verbatim>\<open>processEvents\<close> is recorded; no event of the user is taken to be waiting.
\<close>

definition update_statistics :: "'k collab \<Rightarrow> path \<Rightarrow> path \<Rightarrow> window \<Rightarrow> unit outcome" where
  "update_statistics c path_orig path_new w =
     (let w1 = w\<lparr>stats := (stats w)\<lparr>count := count (stats w) + 1\<rparr>\<rparr>
      in case stat_size path_orig w1 of
           (Inl e, w2) \<Rightarrow> (Inl e, w2)
         | (Inr n, w2) \<Rightarrow>
             (let w3 = w2\<lparr>stats := (stats w2)\<lparr>size_before := size_before (stats w2) + n\<rparr>\<rparr>
              in case stat_size path_new w3 of
                   (Inl e, w4) \<Rightarrow> (Inl e, w4)
                 | (Inr m, w4) \<Rightarrow>
                     (let w5 = w4\<lparr>stats := (stats w4)\<lparr>size_after := size_after (stats w4) + m\<rparr>\<rparr>
                      in case status_msg c [] w5 of
                           (Inl e, w6) \<Rightarrow> (Inl e, w6)
                         | (Inr _, w6) \<Rightarrow> (Inr (), w6\<lparr>trace := trace w6 @ [ProcessEvents]\<rparr>))))"

text \<open>The body of the loop for a pair whose new path is not \<^verbatim>\<open>None\<close>.\<close>

definition process_file :: "'k collab \<Rightarrow> path \<Rightarrow> path \<Rightarrow> window \<Rightarrow> unit outcome" where
  "process_file c path_orig path_new w =
     (case optimize_step c path_new w of
        (Inl e, w1) \<Rightarrow> (Inl e, w1)
      | (Inr path_out, w1) \<Rightarrow> update_statistics c path_orig path_out w1)"

text \<open>
  The loop of line 246 over the generated pairs. A path object is never false, so
  \<^verbatim>\<open>not path_new\<close> holds for \<^verbatim>\<open>None\<close> only, and \<^verbatim>\<open>if path_new_optimized\<close> fails for
  \<^verbatim>\<open>None\<close> only.
\<close>

fun process_loop :: "'k collab \<Rightarrow> wm_item list \<Rightarrow> window \<Rightarrow> unit outcome" where
  "process_loop c [] w = (Inr (), w)"
| "process_loop c (Raise e # items) w = (Inl e, w)"
| "process_loop c (Yield path_orig None effect # items) w =
     process_loop c items (w\<lparr>files := effect (files w)\<rparr>)"
| "process_loop c (Yield path_orig (Some path_new) effect # items) w =
     (case process_file c path_orig path_new (w\<lparr>files := effect (files w)\<rparr>) of
        (Inl e, w1) \<Rightarrow> (Inl e, w1)
      | (Inr _, w1) \<Rightarrow> process_loop c items w1)"

definition process_all :: "'k collab \<Rightarrow> window \<Rightarrow> unit outcome" where
  "process_all c w =
     (let w1 = w\<lparr>CONF := (CONF w)\<lparr>conf_text := text_edit w, conf_picture := picture_edit w\<rparr>\<rparr>;
          paths = map (\<lambda>i. Path c (paths_list w1 ! i)) [0..<length (paths_list w1)]
      in if paths = [] then (Inr (), w1)
         else (let w2 = w1\<lparr>trace := trace w1 @
                           [ApplyWatermarks paths (conf_text (CONF w1)) (conf_picture (CONF w1))]\<rparr>
               in case process_loop c
                         (apply_watermarks c paths (conf_text (CONF w1)) (conf_picture (CONF w1))) w2 of
                    (Inl e, w3) \<Rightarrow> (Inl e, w3)
                  | (Inr _, w3) \<Rightarrow> (Inr (), button_ok_state (w3\<lparr>paths_list := []\<rparr>))))"

subsection \<open>The file chooser\<close>

text \<open>\<^verbatim>\<open>_select_one_file\<close>, given the path the dialog returned (empty when cancelled).\<close>

definition select_one_file :: "string \<Rightarrow> window \<Rightarrow> window" where
  "select_one_file p w =
     (if p \<noteq> [] then w\<lparr>picture_edit := p, CONF := (CONF w)\<lparr>conf_picture := p\<rparr>\<rparr> else w)"

subsection \<open>Construction of the window\<close>

text \<open>
  \<^verbatim>\<open>_window()\<close>: the two line edits start with the saved settings, the list is empty, the
  button box is enabled as every new widget is.
\<close>

definition window_create :: "window \<Rightarrow> window" where
  "window_create w =
     w\<lparr>text_edit := conf_text (CONF w), picture_edit := conf_picture (CONF w),
       paths_list := [], buttons := True\<rparr>"

text \<open>The attributes set by lines 79 to 84, before anything else exists.\<close>

definition init_attributes :: "conf \<Rightarrow> filesystem \<Rightarrow> window" where
  "init_attributes cf fs =
     \<lparr>CONF = cf, files = fs, trace = [],
      stats = \<lparr>count = 0, size_before = 0, size_after = 0\<rparr>,
      cached_use_optimization = None, old_key = None, old_state = None,
      status_bar = None, text_edit = [], picture_edit = [], paths_list = [], buttons = True\<rparr>"

text \<open>
  \<^verbatim>\<open>MainWindow.__init__\<close>, in the order of the source: the statistics and the cache, the
  update check when \<^verbatim>\<open>CONF.update\<close> is set, then the status bar, its first message, the
  widgets and the OK button.
\<close>

definition init :: "'k collab \<Rightarrow> conf \<Rightarrow> filesystem \<Rightarrow> unit outcome" where
  "init c cf fs =
     (let w0 = init_attributes cf fs
      in case (if conf_update cf then check_for_update c w0 else (Inr (), w0)) of
           (Inl e, w1) \<Rightarrow> (Inl e, w1)
         | (Inr _, w1) \<Rightarrow>
             (case status_msg c [] (status_bar_create w1) of
                (Inl e, w2) \<Rightarrow> (Inl e, w2)
              | (Inr _, w2) \<Rightarrow> (Inr (), button_ok_state (window_create w2))))"

subsection \<open>The life of the window\<close>

text \<open>
  What can happen to a constructed window: a drop on the list, a click on the OK button
  (a disabled button emits nothing), a file chosen in the dialog, the user typing in one of
  the line edits, and \<^verbatim>\<open>CONF\<close> being changed from outside the window (the settings dialog).
  A run ends at the first exception.
\<close>

datatype action =
    DropUrls "string list"
  | ClickOk
  | SelectOneFile string
  | EditText string
  | EditPicture string
  | ConfChanged conf

fun step :: "('k::linorder) collab \<Rightarrow> action \<Rightarrow> window \<Rightarrow> unit outcome" where
  "step c (DropUrls urls) w = (Inr (), dropEvent c urls w)"
| "step c ClickOk w = (if buttons w then process_all c w else (Inr (), w))"
| "step c (SelectOneFile p) w = (Inr (), select_one_file p w)"
| "step c (EditText s) w = (Inr (), w\<lparr>text_edit := s\<rparr>)"
| "step c (EditPicture s) w = (Inr (), w\<lparr>picture_edit := s\<rparr>)"
| "step c (ConfChanged cf) w = (Inr (), w\<lparr>CONF := cf\<rparr>)"

fun run :: "('k::linorder) collab \<Rightarrow> action list \<Rightarrow> window \<Rightarrow> unit outcome" where
  "run c [] w = (Inr (), w)"
| "run c (a # as) w =
     (case step c a w of
        (Inl e, w1) \<Rightarrow> (Inl e, w1)
      | (Inr _, w1) \<Rightarrow> run c as w1)"

text \<open>A sequence of drop events on the list.\<close>

fun drops :: "('k::linorder) collab \<Rightarrow> string list list \<Rightarrow> window \<Rightarrow> window" where
  "drops c [] w = w"
| "drops c (urls # rest) w = drops c rest (dropEvent c urls w)"

subsection \<open>An example session\<close>

text \<open>
  Two files are dropped, \<^verbatim>\<open>b.png\<close> first and then \<^verbatim>\<open>a.jpg\<close> together with \<^verbatim>\<open>b.png\<close> again;
  the text is \<^verbatim>\<open>sample\<close> and there is no picture. Texts are compared character by
  character. The watermarking collaborator writes
  \<^verbatim>\<open>a-w.jpg\<close> for \<^verbatim>\<open>a.jpg\<close> and skips every other file; the optimizer replaces
  \<^verbatim>\<open>a-w.jpg\<close> by \<^verbatim>\<open>a-wo.jpg\<close> and returns nothing for any other path.
\<close>

text \<open>
  What \<^verbatim>\<open>pathlib\<close> makes of a text on a POSIX system, for the example: the text is split at
  the slashes, empty and dot components are dropped, a leading slash is kept (two leading
  slashes are kept as two, three or more become one), and nothing at all becomes a dot.
\<close>

fun split_sep :: "string \<Rightarrow> string list" where
  "split_sep [] = [[]]"
| "split_sep (x # xs) =
     (if x = CHR ''/'' then [] # split_sep xs
      else (case split_sep xs of
              [] \<Rightarrow> [[x]]
            | part # parts \<Rightarrow> (x # part) # parts))"

fun join_sep :: "string list \<Rightarrow> string" where
  "join_sep [] = []"
| "join_sep [part] = part"
| "join_sep (part # parts) = part @ CHR ''/'' # join_sep parts"

definition posix_path :: "string \<Rightarrow> path" where
  "posix_path s =
     (let slashes = length (takeWhile (\<lambda>x. x = CHR ''/'') s);
          root = (if slashes = 0 then [] else if slashes = 2 then ''//'' else ''/'');
          parts = filter (\<lambda>x. x \<noteq> [] \<and> x \<noteq> ''.'') (split_sep s)
      in if root = [] \<and> parts = [] then ''.'' else root @ join_sep parts)"

definition example_collab :: "string collab" where
  "example_collab =
     \<lparr>validate_key = (\<lambda>k. k = ''good''),
      optimize = (\<lambda>p fs. if p = ''a-w.jpg''
                          then (Inr (Some ''a-wo.jpg''), fs(''a-wo.jpg'' \<mapsto> 70))
                          else (Inr None, fs)),
      apply_watermarks = (\<lambda>ps t pic.
         map (\<lambda>p. if p = ''a.jpg''
                   then Yield p (Some ''a-w.jpg'') (\<lambda>fs. fs(''a-w.jpg'' \<mapsto> 120))
                   else Yield p None (\<lambda>fs. fs)) ps),
      updater_check = None,
      WINDOWS = False,
      tr_update_error = ''Update error'',
      item_key = (\<lambda>p. p),
      Path = posix_path\<rparr>"

definition example_conf :: conf where
  "example_conf =
     \<lparr>conf_text = ''sample'', conf_picture = [], conf_optimize = True,
      conf_tinify_key = ''good'', conf_update = True\<rparr>"

definition example_files :: filesystem where
  "example_files = [''a.jpg'' \<mapsto> 100, ''b.png'' \<mapsto> 50]"

definition example_window :: window where
  "example_window =
     drops example_collab [[''b.png''], [''a.jpg'', ''b.png'']]
       (snd (init example_collab example_conf example_files))"

subsection \<open>Notions used in the properties\<close>


text \<open>Each of the three statistics of the first is at most that of the second.\<close>

definition stats_le :: "stats \<Rightarrow> stats \<Rightarrow> bool" where
  "stats_le s t =
     (count s \<le> count t \<and> size_before s \<le> size_before t \<and> size_after s \<le> size_after t)"

text \<open>
  The cached value, when there is one, is what the remembered toggle and key give; and the
  cache is fresh when the remembered toggle and key are those of \<^verbatim>\<open>CONF\<close> now.
\<close>

definition cache_valid :: "'k collab \<Rightarrow> window \<Rightarrow> bool" where
  "cache_valid c w =
     (case (cached_use_optimization w, old_key w, old_state w) of
        (Some b, Some k, Some s) \<Rightarrow> b = (s \<and> validate_key c k)
      | _ \<Rightarrow> True)"

definition cache_fresh :: "window \<Rightarrow> bool" where
  "cache_fresh w =
     (cached_use_optimization w \<noteq> None
      \<and> old_key w = Some (conf_tinify_key (CONF w))
      \<and> old_state w = Some (conf_optimize (CONF w)))"

text \<open>The property \<^verbatim>\<open>use_optimization\<close> read a number of times in a row.\<close>

fun reads :: "'k collab \<Rightarrow> nat \<Rightarrow> window \<Rightarrow> window" where
  "reads c 0 w = w"
| "reads c (Suc n) w = reads c n (snd (use_optimization c w))"

fun is_validate_key :: "event \<Rightarrow> bool" where
  "is_validate_key (ValidateKey k) = True"
| "is_validate_key e = False"

fun is_apply_watermarks :: "event \<Rightarrow> bool" where
  "is_apply_watermarks (ApplyWatermarks ps t p) = True"
| "is_apply_watermarks e = False"

text \<open>An element of the generated sequence with a new path, and one without.\<close>

fun produced :: "wm_item \<Rightarrow> bool" where
  "produced (Yield path_orig (Some path_new) effect) = True"
| "produced item = False"

fun skipped :: "wm_item \<Rightarrow> bool" where
  "skipped (Yield path_orig None effect) = True"
| "skipped item = False"

text \<open>What the skipped elements of a sequence did to the file system, in order.\<close>

fun effects :: "wm_item list \<Rightarrow> filesystem \<Rightarrow> filesystem" where
  "effects [] fs = fs"
| "effects (Yield path_orig path_new effect # items) fs = effects items (effect fs)"
| "effects (Raise e # items) fs = fs"

text \<open>
  What the batch loop leaves alone between a window and a later one: the statistics do not
  go down, no further call of \<^verbatim>\<open>apply_watermarks\<close> is made, a valid cache stays valid, and
  the settings, the fields, the list, the button and the status bar's existence are kept.
\<close>

definition batch_frame :: "'k collab \<Rightarrow> window \<Rightarrow> window \<Rightarrow> bool" where
  "batch_frame c w w' =
     (stats_le (stats w) (stats w')
      \<and> filter is_apply_watermarks (trace w') = filter is_apply_watermarks (trace w)
      \<and> (cache_valid c w \<longrightarrow> cache_valid c w')
      \<and> CONF w' = CONF w \<and> text_edit w' = text_edit w \<and> picture_edit w' = picture_edit w
      \<and> paths_list w' = paths_list w \<and> buttons w' = buttons w
      \<and> (status_bar w' = None \<longleftrightarrow> status_bar w = None))"

section \<open>Properties\<close>

subsection \<open>The example session, evaluated\<close>

lemma posix_path_examples [simp]:
  "posix_path ''a.jpg'' = ''a.jpg''"
  "posix_path ''b.png'' = ''b.png''"
  "posix_path ''c.gif'' = ''c.gif''"
  "posix_path ''/tmp/a.jpg'' = ''/tmp/a.jpg''"
  "posix_path ''/tmp/./a.jpg'' = ''/tmp/a.jpg''"
  "posix_path [] = ''.''"
  by (simp_all add: posix_path_def)

lemma example_window_eq:
  "example_window =
     \<lparr>CONF = example_conf, files = example_files,
      trace = [ValidateKey ''good'', ShowMessage (Statistics 0 0 True),
               SetEnabled False, SetEnabled True, SetEnabled True],
      stats = \<lparr>count = 0, size_before = 0, size_after = 0\<rparr>,
      cached_use_optimization = Some True, old_key = Some ''good'', old_state = Some True,
      status_bar = Some (Statistics 0 0 True), text_edit = ''sample'', picture_edit = [],
      paths_list = [''a.jpg'', ''b.png''], buttons = True\<rparr>"
  by (simp add: example_window_def example_collab_def example_conf_def init_def
      init_attributes_def status_msg_def show_message_def status_bar_create_def
      use_optimization_def use_optimization_refresh_def check_for_update_def window_create_def
      button_ok_state_def dropEvent_def exists_def addItem_def Let_def)

subsection \<open>The list of dropped paths\<close>

lemma exists_iff: "exists w p \<longleftrightarrow> p \<in> set (paths_list w)"
  by (auto simp: exists_def list_ex_iff in_set_conv_nth)

lemma drop_urls_frame:
  "drop_urls c urls w =
     w\<lparr>paths_list := foldl (\<lambda>xs p. if p \<in> set xs then xs else insort_key (item_key c) p xs)
         (paths_list w) urls\<rparr>"
  by (induction urls arbitrary: w) (simp_all add: exists_iff addItem_def)

lemma drop_urls_known:
  "set urls \<subseteq> set (paths_list w) \<Longrightarrow> drop_urls c urls w = w"
  by (induction urls arbitrary: w) (auto simp: exists_iff)

lemma drop_urls_distinct:
  "distinct (paths_list w) \<Longrightarrow> distinct (paths_list (drop_urls c urls w))"
  by (induction urls arbitrary: w) (auto simp: exists_iff addItem_def distinct_insort)

lemma drop_urls_sorted:
  "sorted (map (item_key c) (paths_list w)) \<Longrightarrow>
     sorted (map (item_key c) (paths_list (drop_urls c urls w)))"
  by (induction urls arbitrary: w) (auto simp: exists_iff addItem_def sorted_insort_key)

lemma drop_urls_set:
  "set (paths_list (drop_urls c urls w)) = set (paths_list w) \<union> set urls"
  by (induction urls arbitrary: w) (auto simp: exists_iff addItem_def set_insort_key)

lemma button_ok_state_paths_list [simp]: "paths_list (button_ok_state w) = paths_list w"
  by (simp add: button_ok_state_def Let_def)

lemma dropEvent_paths_list: "paths_list (dropEvent c urls w) = paths_list (drop_urls c urls w)"
  by (simp add: dropEvent_def)

lemma drops_distinct:
  "distinct (paths_list w) \<Longrightarrow> distinct (paths_list (drops c evs w))"
  by (induction evs arbitrary: w) (auto simp: dropEvent_paths_list drop_urls_distinct)

lemma drops_sorted:
  "sorted (map (item_key c) (paths_list w)) \<Longrightarrow>
     sorted (map (item_key c) (paths_list (drops c evs w)))"
  by (induction evs arbitrary: w) (auto simp: dropEvent_paths_list drop_urls_sorted)

lemma drops_set:
  "set (paths_list (drops c evs w)) = set (paths_list w) \<union> set (concat evs)"
  by (induction evs arbitrary: w) (auto simp: dropEvent_paths_list drop_urls_set)

text \<open>
  Claim C4. \<^verbatim>\<open>exists\<close> decides membership by equality with the text of an item. A drop of
  a path that is in the list, or of any urls that all are, leaves the list as it was; the
  list stays free of duplicates through any sequence of drops, and is so from the
  construction of the window on.
\<close>

theorem dropEvent_known_path:
  "(exists w p \<longleftrightarrow> p \<in> set (paths_list w))
   \<and> (p \<in> set (paths_list w) \<longrightarrow> paths_list (dropEvent c [p] w) = paths_list w)
   \<and> (set urls \<subseteq> set (paths_list w) \<longrightarrow> paths_list (dropEvent c urls w) = paths_list w)
   \<and> (distinct (paths_list w) \<longrightarrow> distinct (paths_list (drops c evs w)))
   \<and> distinct (paths_list (drops c evs (window_create w)))"
proof -
  have "paths_list (window_create w) = []" by (simp add: window_create_def)
  then have "distinct (paths_list (drops c evs (window_create w)))"
    by (simp add: drops_distinct)
  then show ?thesis
    by (simp add: dropEvent_paths_list drop_urls_known drops_distinct exists_iff)
qed

theorem dropEvent_known_path_witness:
  "paths_list (dropEvent example_collab [''b.png''] example_window) = [''a.jpg'', ''b.png'']
   \<and> paths_list (dropEvent example_collab [''b.png'', ''a.jpg'', ''b.png''] example_window) = [''a.jpg'', ''b.png'']
   \<and> distinct (paths_list (drops example_collab [[''c.gif'', ''a.jpg''], [''c.gif'']] example_window))"
  using dropEvent_known_path
    [where w = example_window and c = example_collab and p = "''b.png''"
       and urls = "[''b.png'', ''a.jpg'', ''b.png'']"
       and evs = "[[''c.gif'', ''a.jpg''], [''c.gif'']]"]
  by (simp add: example_window_eq)

subsection \<open>A batch on an empty list\<close>

text \<open>
  Claim C10. With no item in the list, \<^verbatim>\<open>_process_all\<close> stores the two fields in
  \<^verbatim>\<open>CONF.text\<close> and \<^verbatim>\<open>CONF.picture\<close> and returns: the rest of the window, the statistics,
  the list, the button and the trace of calls are as before.
\<close>

theorem process_all_empty_queue:
  "paths_list w = [] \<Longrightarrow>
     process_all c w =
       (Inr (), w\<lparr>CONF := (CONF w)\<lparr>conf_text := text_edit w, conf_picture := picture_edit w\<rparr>\<rparr>)"
  by (simp add: process_all_def Let_def)

theorem process_all_empty_queue_witness:
  "process_all example_collab (example_window\<lparr>paths_list := [], text_edit := ''new''\<rparr>) =
     (Inr (), example_window\<lparr>paths_list := [], text_edit := ''new'',
                            CONF := example_conf\<lparr>conf_text := ''new''\<rparr>\<rparr>)"
  using process_all_empty_queue
      [of "example_window\<lparr>paths_list := [], text_edit := ''new''\<rparr>" example_collab]
  by (simp add: example_window_eq example_conf_def)

subsection \<open>The optimization gate\<close>

lemma use_optimization_unchanged [simp]:
  "stats (snd (use_optimization c w)) = stats w"
  "files (snd (use_optimization c w)) = files w"
  "CONF (snd (use_optimization c w)) = CONF w"
  "status_bar (snd (use_optimization c w)) = status_bar w"
  "text_edit (snd (use_optimization c w)) = text_edit w"
  "picture_edit (snd (use_optimization c w)) = picture_edit w"
  "paths_list (snd (use_optimization c w)) = paths_list w"
  "buttons (snd (use_optimization c w)) = buttons w"
  by (simp_all add: use_optimization_def use_optimization_refresh_def Let_def
      split: option.splits)

lemma use_optimization_fresh: "cache_fresh (snd (use_optimization c w))"
  by (auto simp: use_optimization_def use_optimization_refresh_def cache_fresh_def Let_def
      split: option.splits)

lemma use_optimization_cached: "cache_fresh w \<Longrightarrow> snd (use_optimization c w) = w"
  by (auto simp: use_optimization_def cache_fresh_def split: option.splits)

lemma use_optimization_valid:
  "cache_valid c w \<Longrightarrow> cache_valid c (snd (use_optimization c w))"
  by (auto simp: use_optimization_def use_optimization_refresh_def cache_valid_def Let_def
      split: option.splits)

lemma use_optimization_value:
  "cache_valid c w \<Longrightarrow>
     fst (use_optimization c w) =
       (conf_optimize (CONF w) \<and> validate_key c (conf_tinify_key (CONF w)))"
  by (auto simp: use_optimization_def use_optimization_refresh_def cache_valid_def Let_def
      split: option.splits)

lemma use_optimization_trace:
  "trace (snd (use_optimization c w)) =
     trace w @ (if cache_fresh w \<or> \<not> conf_optimize (CONF w) then []
                else [ValidateKey (conf_tinify_key (CONF w))])"
  by (auto simp: use_optimization_def use_optimization_refresh_def cache_fresh_def Let_def
      split: option.splits)

lemma reads_off:
  "\<not> conf_optimize (CONF w) \<Longrightarrow>
     trace (reads c n w) = trace w \<and> CONF (reads c n w) = CONF w"
  by (induction n arbitrary: w) (simp_all add: use_optimization_trace)

lemma reads_valid: "cache_valid c w \<Longrightarrow> cache_valid c (reads c n w)"
  by (induction n arbitrary: w) (simp_all add: use_optimization_valid)

lemma reads_fresh: "cache_fresh w \<Longrightarrow> reads c n w = w"
  by (induction n arbitrary: w) (simp_all add: use_optimization_cached)

subsection \<open>What the batch loop leaves alone\<close>

lemma cache_valid_update [simp]:
  "cache_valid c (w\<lparr>CONF := cf\<rparr>) = cache_valid c w"
  "cache_valid c (w\<lparr>files := f\<rparr>) = cache_valid c w"
  "cache_valid c (w\<lparr>trace := t\<rparr>) = cache_valid c w"
  "cache_valid c (w\<lparr>stats := st\<rparr>) = cache_valid c w"
  "cache_valid c (w\<lparr>status_bar := m\<rparr>) = cache_valid c w"
  "cache_valid c (w\<lparr>text_edit := s\<rparr>) = cache_valid c w"
  "cache_valid c (w\<lparr>picture_edit := s\<rparr>) = cache_valid c w"
  "cache_valid c (w\<lparr>paths_list := ps\<rparr>) = cache_valid c w"
  "cache_valid c (w\<lparr>buttons := b\<rparr>) = cache_valid c w"
  by (simp_all add: cache_valid_def)

lemma batch_frame_refl [simp]: "batch_frame c w w"
  by (simp add: batch_frame_def stats_le_def)

lemma batch_frame_trans:
  "batch_frame c w1 w2 \<Longrightarrow> batch_frame c w2 w3 \<Longrightarrow> batch_frame c w1 w3"
  by (auto simp: batch_frame_def stats_le_def)

lemma batch_frame_files [simp]: "batch_frame c w (w\<lparr>files := f\<rparr>)"
  by (simp add: batch_frame_def stats_le_def cache_valid_def)

lemma batch_frame_use_optimization: "batch_frame c w (snd (use_optimization c w))"
  by (simp add: batch_frame_def stats_le_def use_optimization_trace use_optimization_valid)

lemma batch_frame_show_message: "batch_frame c w (snd (show_message m w))"
  by (simp add: batch_frame_def stats_le_def show_message_def cache_valid_def
      split: option.splits)

lemma batch_frame_status_msg: "batch_frame c w (snd (status_msg c msg w))"
proof (cases "msg = []")
  case True
  obtain use w1 where u: "use_optimization c w = (use, w1)" by (cases "use_optimization c w")
  have "batch_frame c w w1" using batch_frame_use_optimization [of c w] u by simp
  moreover have "batch_frame c w1 (snd (show_message (Statistics (count (stats w))
      (size_before (stats w) - size_after (stats w)) use) w1))"
    by (rule batch_frame_show_message)
  ultimately show ?thesis using True u
    by (simp add: status_msg_def Let_def) (rule batch_frame_trans)
next
  case False
  then show ?thesis by (simp add: status_msg_def batch_frame_show_message)
qed

lemma stat_size_window [simp]: "snd (stat_size p w) = w"
  by (simp add: stat_size_def split: option.splits)

lemma stat_size_nonneg: "stat_size p w = (Inr n, w') \<Longrightarrow> 0 \<le> n"
  by (auto simp: stat_size_def split: option.splits)

lemma batch_frame_unlink: "batch_frame c w (snd (unlink p w))"
  by (simp add: batch_frame_def stats_le_def unlink_def cache_valid_def split: option.splits)

lemma batch_frame_optimize_step: "batch_frame c w (snd (optimize_step c path_new w))"
proof -
  obtain use w1 where u: "use_optimization c w = (use, w1)" by (cases "use_optimization c w")
  have f1: "batch_frame c w w1" using batch_frame_use_optimization [of c w] u by simp
  show ?thesis
  proof (cases use)
    case False
    then show ?thesis using u f1 by (simp add: optimize_step_def)
  next
    case True
    obtain r fs1 where o: "optimize c path_new (files w1) = (r, fs1)"
      by (cases "optimize c path_new (files w1)")
    let ?w2 = "w1\<lparr>files := fs1, trace := trace w1 @ [Optimize path_new]\<rparr>"
    have f2: "batch_frame c w1 ?w2"
      by (simp add: batch_frame_def stats_le_def cache_valid_def)
    have f3: "batch_frame c ?w2 (snd (unlink path_new ?w2))" by (rule batch_frame_unlink)
    have step: "optimize_step c path_new w =
        (case r of Inl e \<Rightarrow> (Inl e, ?w2)
         | Inr None \<Rightarrow> (Inr path_new, ?w2)
         | Inr (Some path_new_optimized) \<Rightarrow>
             (case unlink path_new ?w2 of
                (Inl e, w3) \<Rightarrow> (Inl e, w3)
              | (Inr _, w3) \<Rightarrow> (Inr path_new_optimized, w3)))"
      using u o True by (simp add: optimize_step_def Let_def)
    have "batch_frame c ?w2 (snd (optimize_step c path_new w))"
      using f3 by (auto simp: step split: sum.splits option.splits prod.splits)
    with f1 f2 show ?thesis by (blast intro: batch_frame_trans)
  qed
qed

lemma batch_frame_update_statistics:
  "batch_frame c w (snd (update_statistics c path_orig path_new w))"
proof -
  define w1 where "w1 = w\<lparr>stats := (stats w)\<lparr>count := count (stats w) + 1\<rparr>\<rparr>"
  have f1: "batch_frame c w w1"
    by (simp add: w1_def batch_frame_def stats_le_def cache_valid_def)
  show ?thesis
  proof (cases "files w path_orig")
    case None
    then show ?thesis using f1
      by (simp add: update_statistics_def stat_size_def w1_def)
  next
    case (Some n)
    define w3 where "w3 = w1\<lparr>stats := (stats w1)\<lparr>size_before := size_before (stats w1) + int n\<rparr>\<rparr>"
    have f3: "batch_frame c w1 w3"
      by (simp add: w3_def batch_frame_def stats_le_def cache_valid_def)
    show ?thesis
    proof (cases "files w path_new")
      case None
      then show ?thesis using f1 f3 Some
        by (simp add: update_statistics_def stat_size_def w1_def w3_def)
          (blast intro: batch_frame_trans)
    next
      case (Some m)
      define w5 where "w5 = w3\<lparr>stats := (stats w3)\<lparr>size_after := size_after (stats w3) + int m\<rparr>\<rparr>"
      have f5: "batch_frame c w3 w5"
        by (simp add: w5_def batch_frame_def stats_le_def cache_valid_def)
      have f6: "batch_frame c w5 (snd (status_msg c [] w5))" by (rule batch_frame_status_msg)
      have step: "update_statistics c path_orig path_new w =
          (case status_msg c [] w5 of
             (Inl e, w6) \<Rightarrow> (Inl e, w6)
           | (Inr _, w6) \<Rightarrow> (Inr (), w6\<lparr>trace := trace w6 @ [ProcessEvents]\<rparr>))"
        using Some \<open>files w path_orig = Some n\<close>
        by (simp add: update_statistics_def stat_size_def w1_def w3_def w5_def)
      have f7: "batch_frame c w6 (w6\<lparr>trace := trace w6 @ [ProcessEvents]\<rparr>)" for w6
        by (simp add: batch_frame_def stats_le_def cache_valid_def)
      have "batch_frame c w5 (snd (update_statistics c path_orig path_new w))"
        using f6 f7 by (auto simp: step split: prod.splits sum.splits intro: batch_frame_trans)
      with f1 f3 f5 show ?thesis by (blast intro: batch_frame_trans)
    qed
  qed
qed

lemma batch_frame_process_file:
  "batch_frame c w (snd (process_file c path_orig path_new w))"
proof (cases "optimize_step c path_new w")
  case (Pair r w1)
  have f1: "batch_frame c w w1" using batch_frame_optimize_step [of c w path_new] Pair by simp
  show ?thesis
  proof (cases r)
    case (Inl e)
    then show ?thesis using f1 Pair by (simp add: process_file_def)
  next
    case (Inr path_out)
    have "batch_frame c w1 (snd (update_statistics c path_orig path_out w1))"
      by (rule batch_frame_update_statistics)
    with f1 show ?thesis using Pair Inr
      by (simp add: process_file_def) (rule batch_frame_trans)
  qed
qed

lemma batch_frame_process_loop: "batch_frame c w (snd (process_loop c items w))"
proof (induction c items w rule: process_loop.induct)
  case (1 c w)
  show ?case by simp
next
  case (2 c e items w)
  show ?case by simp
next
  case (3 c path_orig effect items w)
  have "batch_frame c w (w\<lparr>files := effect (files w)\<rparr>)" by simp
  with 3 show ?case by (simp del: batch_frame_files) (rule batch_frame_trans)
next
  case (4 c path_orig path_new effect items w)
  let ?w0 = "w\<lparr>files := effect (files w)\<rparr>"
  obtain r w1 where p: "process_file c path_orig path_new ?w0 = (r, w1)"
    by (cases "process_file c path_orig path_new ?w0")
  have f0: "batch_frame c w ?w0" by simp
  have f1: "batch_frame c ?w0 w1"
    using batch_frame_process_file [of c ?w0 path_orig path_new] p by simp
  show ?case
  proof (cases r)
    case (Inl e)
    then show ?thesis using p f0 f1 by (simp del: batch_frame_files) (rule batch_frame_trans)
  next
    case (Inr u)
    have f2: "batch_frame c w1 (snd (process_loop c items w1))"
      using "4.IH" [OF p [symmetric]] Inr by simp
    have "batch_frame c w (snd (process_loop c items w1))"
      by (rule batch_frame_trans [OF batch_frame_trans [OF f0 f1] f2])
    then show ?thesis using p Inr by simp
  qed
qed

subsection \<open>The statistics and the cache over the life of the window\<close>

lemma show_message_stats [simp]: "stats (snd (show_message m w)) = stats w"
  by (simp add: show_message_def split: option.splits)

lemma status_msg_stats [simp]: "stats (snd (status_msg c msg w)) = stats w"
  by (simp add: status_msg_def Let_def split: prod.splits)
    (metis snd_conv use_optimization_unchanged(1))

lemma check_for_update_stats [simp]: "stats (snd (check_for_update c w)) = stats w"
  by (simp add: check_for_update_def Let_def split: option.splits)

lemma check_for_update_valid:
  "cache_valid c w \<Longrightarrow> cache_valid c (snd (check_for_update c w))"
proof -
  assume v: "cache_valid c w"
  let ?w1 = "w\<lparr>trace := trace w @ [UpdaterCheck]\<rparr>"
  have v1: "cache_valid c ?w1" using v by (simp add: cache_valid_def)
  have "cache_valid c (snd (status_msg c msg ?w1))" for msg
    using batch_frame_status_msg [of c ?w1 msg] v1 by (simp add: batch_frame_def)
  with v v1 show ?thesis
    by (simp add: check_for_update_def Let_def split: option.splits)
qed

lemma button_ok_state_kept [simp]:
  "stats (button_ok_state w) = stats w"
  "cache_valid c (button_ok_state w) = cache_valid c w"
  by (simp_all add: button_ok_state_def Let_def cache_valid_def)

lemma init_cases:
  "init c cf fs =
     (let w1 = (if conf_update cf then snd (check_for_update c (init_attributes cf fs))
                else init_attributes cf fs);
          w2 = snd (status_msg c [] (status_bar_create w1))
      in if conf_update cf \<and> fst (check_for_update c (init_attributes cf fs)) \<noteq> Inr ()
         then (fst (check_for_update c (init_attributes cf fs)), w1)
         else if fst (status_msg c [] (status_bar_create w1)) \<noteq> Inr ()
         then (fst (status_msg c [] (status_bar_create w1)), w2)
         else (Inr (), button_ok_state (window_create w2)))"
  by (auto simp: init_def Let_def split: prod.splits sum.splits)

lemma init_stats:
  "stats (snd (init c cf fs)) = \<lparr>count = 0, size_before = 0, size_after = 0\<rparr>"
proof -
  have "stats (init_attributes cf fs) = \<lparr>count = 0, size_before = 0, size_after = 0\<rparr>"
    by (simp add: init_attributes_def)
  then show ?thesis
    by (simp add: init_cases Let_def window_create_def status_bar_create_def)
qed

lemma init_valid: "cache_valid c (snd (init c cf fs))"
proof -
  let ?w0 = "init_attributes cf fs"
  let ?w1 = "if conf_update cf then snd (check_for_update c ?w0) else ?w0"
  let ?w2 = "snd (status_msg c [] (status_bar_create ?w1))"
  have v0: "cache_valid c ?w0" by (simp add: init_attributes_def cache_valid_def)
  have v1: "cache_valid c ?w1"
    using check_for_update_valid [OF v0] v0 by simp
  have "cache_valid c (status_bar_create ?w1)"
    using v1 by (simp add: status_bar_create_def)
  then have v2: "cache_valid c ?w2"
    using batch_frame_status_msg [of c "status_bar_create ?w1" "[]"]
    by (simp add: batch_frame_def)
  have "cache_valid c (window_create ?w2)"
    using v2 by (simp add: window_create_def)
  then have v3: "cache_valid c (button_ok_state (window_create ?w2))"
    by simp
  show ?thesis
    unfolding init_cases Let_def using v1 v2 v3 by (simp split: if_splits)
qed

lemma map_Path_nth: "map (\<lambda>i. f (xs ! i)) [0..<length xs] = map f xs"
  by (rule nth_equalityI) simp_all

lemma process_all_cases:
  "process_all c w =
     (let w1 = w\<lparr>CONF := (CONF w)\<lparr>conf_text := text_edit w, conf_picture := picture_edit w\<rparr>\<rparr>;
          w2 = w1\<lparr>trace := trace w1 @
                 [ApplyWatermarks (map (Path c) (paths_list w)) (text_edit w) (picture_edit w)]\<rparr>
      in if paths_list w = [] then (Inr (), w1)
         else (case process_loop c
                     (apply_watermarks c (map (Path c) (paths_list w)) (text_edit w) (picture_edit w)) w2 of
                 (Inl e, w3) \<Rightarrow> (Inl e, w3)
               | (Inr _, w3) \<Rightarrow> (Inr (), button_ok_state (w3\<lparr>paths_list := []\<rparr>))))"
  by (simp add: process_all_def Let_def map_Path_nth)

lemma process_all_kept:
  "stats_le (stats w) (stats (snd (process_all c w)))
   \<and> (cache_valid c w \<longrightarrow> cache_valid c (snd (process_all c w)))
   \<and> (sorted (map (item_key c) (paths_list w)) \<longrightarrow>
        sorted (map (item_key c) (paths_list (snd (process_all c w)))))"
proof (cases "paths_list w = []")
  case True
  then show ?thesis by (simp add: process_all_cases Let_def stats_le_def cache_valid_def)
next
  case False
  let ?w1 = "w\<lparr>CONF := (CONF w)\<lparr>conf_text := text_edit w, conf_picture := picture_edit w\<rparr>\<rparr>"
  let ?w2 = "?w1\<lparr>trace := trace ?w1 @
                 [ApplyWatermarks (map (Path c) (paths_list w)) (text_edit w) (picture_edit w)]\<rparr>"
  let ?items = "apply_watermarks c (map (Path c) (paths_list w)) (text_edit w) (picture_edit w)"
  obtain r w3 where l: "process_loop c ?items ?w2 = (r, w3)"
    by (cases "process_loop c ?items ?w2")
  have f: "batch_frame c ?w2 w3" using batch_frame_process_loop [of c ?w2 ?items] l by simp
  have a: "stats_le (stats w) (stats w3)" using f by (simp add: batch_frame_def)
  have b: "cache_valid c w \<longrightarrow> cache_valid c w3"
    using f by (simp add: batch_frame_def cache_valid_def)
  have d: "paths_list w3 = paths_list w" using f by (simp add: batch_frame_def)
  have e: "cache_valid c (w3\<lparr>paths_list := []\<rparr>) = cache_valid c w3"
    by (simp add: cache_valid_def)
  show ?thesis using False l a b d e
    by (cases r) (simp_all add: process_all_cases Let_def)
qed

lemma dropEvent_kept:
  "stats (dropEvent c urls w) = stats w"
  "cache_valid c (dropEvent c urls w) = cache_valid c w"
  by (simp_all add: dropEvent_def, simp_all add: drop_urls_frame cache_valid_def)

lemma step_kept:
  "stats_le (stats w) (stats (snd (step c a w)))
   \<and> (cache_valid c w \<longrightarrow> cache_valid c (snd (step c a w)))
   \<and> (sorted (map (item_key c) (paths_list w)) \<longrightarrow>
        sorted (map (item_key c) (paths_list (snd (step c a w)))))"
proof (cases a)
  case (DropUrls urls)
  then show ?thesis
    by (simp add: dropEvent_kept dropEvent_paths_list drop_urls_sorted) (simp add: stats_le_def)
next
  case ClickOk
  then show ?thesis using process_all_kept [of w c] by (simp add: stats_le_def)
next
  case (SelectOneFile p)
  then show ?thesis by (simp add: select_one_file_def stats_le_def)
next
  case (EditText s)
  then show ?thesis by (simp add: stats_le_def)
next
  case (EditPicture s)
  then show ?thesis by (simp add: stats_le_def)
next
  case (ConfChanged cf)
  then show ?thesis by (simp add: stats_le_def)
qed

lemma stats_le_trans: "stats_le s t \<Longrightarrow> stats_le t u \<Longrightarrow> stats_le s u"
  by (auto simp: stats_le_def)

lemma run_kept:
  "stats_le (stats w) (stats (snd (run c as w)))
   \<and> (cache_valid c w \<longrightarrow> cache_valid c (snd (run c as w)))
   \<and> (sorted (map (item_key c) (paths_list w)) \<longrightarrow>
        sorted (map (item_key c) (paths_list (snd (run c as w)))))"
proof (induction as arbitrary: w)
  case Nil
  show ?case by (simp add: stats_le_def)
next
  case (Cons a as)
  obtain r w1 where s: "step c a w = (r, w1)" by (cases "step c a w")
  note k = step_kept [of w c a, unfolded s snd_conv]
  show ?case
  proof (cases r)
    case (Inl e)
    then show ?thesis using s k by simp
  next
    case (Inr u)
    then show ?thesis using s k Cons.IH [of w1]
      by (auto intro: stats_le_trans)
  qed
qed

subsection \<open>The optimization gate, read over time\<close>

text \<open>
  Claim C6. A read of \<^verbatim>\<open>use_optimization\<close> on a fresh cache (the remembered toggle and
  key are those of \<^verbatim>\<open>CONF\<close>) changes nothing and calls nothing; \<^verbatim>\<open>validate_key\<close> is
  called exactly when the cache is not fresh and the toggle is on; after a read the cache is
  fresh. The value read is the toggle and the validity of the key, in every window whose
  cache is valid, and so in every window reached from the construction. While the toggle is
  off, any number of reads leaves the trace of calls as it was.
\<close>

theorem use_optimization_gate:
  "(cache_fresh w \<longrightarrow> snd (use_optimization c w) = w)
   \<and> trace (snd (use_optimization c w)) =
       trace w @ (if cache_fresh w \<or> \<not> conf_optimize (CONF w) then []
                  else [ValidateKey (conf_tinify_key (CONF w))])
   \<and> cache_fresh (snd (use_optimization c w))
   \<and> (cache_valid c w \<longrightarrow>
        fst (use_optimization c w) =
          (conf_optimize (CONF w) \<and> validate_key c (conf_tinify_key (CONF w))))
   \<and> (\<not> conf_optimize (CONF w) \<longrightarrow> trace (reads c n w) = trace w)
   \<and> cache_valid c (snd (run c as (snd (init c cf fs))))"
proof -
  have "cache_valid c (snd (run c as (snd (init c cf fs))))"
    using run_kept [of "snd (init c cf fs)" c as] init_valid [of c cf fs] by simp
  then show ?thesis
    using use_optimization_cached [of w c] use_optimization_trace [of c w]
      use_optimization_fresh [of c w] use_optimization_value [of c w] reads_off [of w c n]
    by simp
qed

theorem use_optimization_gate_witness:
  "use_optimization example_collab example_window = (True, example_window)
   \<and> trace (reads example_collab 3
        (example_window\<lparr>CONF := example_conf\<lparr>conf_optimize := False\<rparr>\<rparr>)) =
       trace example_window
   \<and> \<not> fst (use_optimization example_collab
        (example_window\<lparr>CONF := example_conf\<lparr>conf_optimize := False\<rparr>\<rparr>))
   \<and> trace (snd (use_optimization example_collab
        (example_window\<lparr>CONF := example_conf\<lparr>conf_tinify_key := ''bad''\<rparr>\<rparr>))) =
       trace example_window @ [ValidateKey ''bad'']"
proof -
  let ?off = "example_window\<lparr>CONF := example_conf\<lparr>conf_optimize := False\<rparr>\<rparr>"
  let ?bad = "example_window\<lparr>CONF := example_conf\<lparr>conf_tinify_key := ''bad''\<rparr>\<rparr>"
  have fresh: "cache_fresh example_window"
    by (simp add: example_window_eq example_conf_def cache_fresh_def)
  have valid: "cache_valid example_collab ?off"
    by (simp add: example_window_eq example_collab_def cache_valid_def)
  have off: "\<not> conf_optimize (CONF ?off)" by simp
  have stale: "\<not> cache_fresh ?bad"
    by (simp add: example_window_eq example_conf_def cache_fresh_def)
  have on: "conf_optimize (CONF ?bad)" by (simp add: example_conf_def)
  note g = use_optimization_gate [of example_window example_collab]
  note g_off = use_optimization_gate [of ?off example_collab 3]
  note g_bad = use_optimization_gate [of ?bad example_collab]
  have "snd (use_optimization example_collab example_window) = example_window"
    using g fresh by blast
  moreover have "fst (use_optimization example_collab example_window)"
    by (simp add: use_optimization_def example_window_eq example_conf_def)
  ultimately have 1: "use_optimization example_collab example_window = (True, example_window)"
    by (metis prod.collapse)
  have 2: "trace (reads example_collab 3 ?off) = trace example_window"
    using g_off off by simp
  have 3: "\<not> fst (use_optimization example_collab ?off)"
    using g_off valid off by blast
  have 4: "trace (snd (use_optimization example_collab ?bad)) =
      trace example_window @ [ValidateKey ''bad'']"
    using g_bad stale on by (simp add: example_conf_def)
  from 1 2 3 4 show ?thesis by blast
qed

subsection \<open>The statistics over the life of the window\<close>

text \<open>
  Claim C8. The three statistics are zero when the window has been constructed; the update
  of the loop, a whole batch, any event of the window's life and any sequence of events
  leave each of them at least as large as before, whether or not an exception ends the
  batch; so they are never reset and add up over the batches of a session.
\<close>

theorem stats_never_decrease:
  "stats (snd (init c cf fs)) = \<lparr>count = 0, size_before = 0, size_after = 0\<rparr>
   \<and> stats_le (stats w) (stats (snd (update_statistics c path_orig path_new w)))
   \<and> stats_le (stats w) (stats (snd (process_all c w)))
   \<and> stats_le (stats w) (stats (snd (step c a w)))
   \<and> stats_le (stats w) (stats (snd (run c as w)))
   \<and> stats_le \<lparr>count = 0, size_before = 0, size_after = 0\<rparr>
        (stats (snd (run c as (snd (init c cf fs)))))"
proof -
  have "stats_le (stats w) (stats (snd (update_statistics c path_orig path_new w)))"
    using batch_frame_update_statistics [of c w path_orig path_new]
    by (simp add: batch_frame_def)
  moreover have "stats_le (stats (snd (init c cf fs))) (stats (snd (run c as (snd (init c cf fs)))))"
    using run_kept [of "snd (init c cf fs)" c as] by simp
  ultimately show ?thesis
    using init_stats [of c cf fs] process_all_kept [of w c] step_kept [of w c a]
      run_kept [of w c as]
    by simp
qed


lemmas batch_defs =
  process_all_def process_file_def optimize_step_def update_statistics_def stat_size_def
  unlink_def status_msg_def show_message_def use_optimization_def
  use_optimization_refresh_def button_ok_state_def Let_def

lemma example_batch:
  "process_all example_collab example_window =
     (Inr (),
      \<lparr>CONF = example_conf,
       files = [''a.jpg'' \<mapsto> 100, ''b.png'' \<mapsto> 50, ''a-wo.jpg'' \<mapsto> 70],
       trace = [ValidateKey ''good'', ShowMessage (Statistics 0 0 True),
                SetEnabled False, SetEnabled True, SetEnabled True,
                ApplyWatermarks [''a.jpg'', ''b.png''] ''sample'' [],
                Optimize ''a-w.jpg'', Unlink ''a-w.jpg'',
                ShowMessage (Statistics 1 30 True), ProcessEvents, SetEnabled False],
       stats = \<lparr>count = 1, size_before = 100, size_after = 70\<rparr>,
       cached_use_optimization = Some True, old_key = Some ''good'', old_state = Some True,
       status_bar = Some (Statistics 1 30 True), text_edit = ''sample'', picture_edit = [],
       paths_list = [], buttons = False\<rparr>)"
  by (simp add: example_window_eq example_collab_def example_conf_def example_files_def
      batch_defs fun_upd_twist)

lemma example_second_batch:
  "stats (snd (run example_collab [ClickOk, DropUrls [''a.jpg''], ClickOk] example_window)) =
     \<lparr>count = 2, size_before = 200, size_after = 140\<rparr>"
  by (simp add: example_window_eq [THEN arg_cong [where f = buttons]] example_batch)
    (simp add: example_collab_def example_conf_def dropEvent_def exists_def addItem_def
      batch_defs)

theorem stats_never_decrease_witness:
  "stats_le \<lparr>count = 0, size_before = 0, size_after = 0\<rparr>
      \<lparr>count = 2, size_before = 200, size_after = 140\<rparr>
   \<and> stats example_window = \<lparr>count = 0, size_before = 0, size_after = 0\<rparr>
   \<and> stats (snd (run example_collab [ClickOk, DropUrls [''a.jpg''], ClickOk] example_window)) =
       \<lparr>count = 2, size_before = 200, size_after = 140\<rparr>"
proof -
  let ?as = "[ClickOk, DropUrls [''a.jpg''], ClickOk]"
  have le: "stats_le (stats example_window) (stats (snd (run example_collab ?as example_window)))"
    using stats_never_decrease [where w = example_window and c = example_collab and as = ?as]
    by blast
  have s0: "stats example_window = \<lparr>count = 0, size_before = 0, size_after = 0\<rparr>"
    by (simp add: example_window_eq)
  show ?thesis using le s0 example_second_batch by simp
qed

subsection \<open>The update check at startup\<close>

lemma status_msg_no_status_bar:
  assumes "status_bar w = None"
  shows "fst (status_msg c msg w) = Inl (AttributeError ''status_bar'')"
proof -
  obtain use w1 where u: "use_optimization c w = (use, w1)" by (cases "use_optimization c w")
  have "status_bar w1 = None"
    using use_optimization_unchanged(4) [of c w] u assms by simp
  then show ?thesis using assms u
    by (simp add: status_msg_def show_message_def)
qed

text \<open>
  Claim C9, at the input where the code departs from it. The window checks for an update
  (\<^verbatim>\<open>CONF.update\<close> is set, the platform is Windows) and the checker raises. The handler
  calls \<^verbatim>\<open>_status_msg\<close>, which reads \<^verbatim>\<open>self.status_bar\<close>; the constructor creates that
  attribute only after the update check, so the handler raises \<^verbatim>\<open>AttributeError\<close> and the
  construction of the window fails with it, whatever the checker raised and whatever the
  text of the message.
\<close>

theorem update_check_failure_at_startup:
  "conf_update cf \<Longrightarrow> WINDOWS c \<Longrightarrow> updater_check c = Some e \<Longrightarrow>
     fst (init c cf fs) = Inl (AttributeError ''status_bar'')
     \<and> status_bar (snd (init c cf fs)) = None"
proof -
  assume a: "conf_update cf" "WINDOWS c" "updater_check c = Some e"
  let ?w1 = "(init_attributes cf fs)\<lparr>trace := trace (init_attributes cf fs) @ [UpdaterCheck]\<rparr>"
  have none: "status_bar ?w1 = None" by (simp add: init_attributes_def)
  have chk: "check_for_update c (init_attributes cf fs) = status_msg c (tr_update_error c) ?w1"
    using a by (simp add: check_for_update_def Let_def)
  have r: "fst (status_msg c (tr_update_error c) ?w1) = Inl (AttributeError ''status_bar'')"
    using none by (rule status_msg_no_status_bar)
  have "status_bar (snd (status_msg c (tr_update_error c) ?w1)) = None"
    using batch_frame_status_msg [of c ?w1 "tr_update_error c"] none
    by (simp add: batch_frame_def)
  with a chk r show ?thesis by (simp add: init_cases Let_def)
qed

theorem update_check_failure_at_startup_witness:
  "fst (init (example_collab\<lparr>WINDOWS := True, updater_check := Some (CollaboratorError ''network'')\<rparr>)
        example_conf example_files) = Inl (AttributeError ''status_bar'')"
  using update_check_failure_at_startup
    [of example_conf
        "example_collab\<lparr>WINDOWS := True, updater_check := Some (CollaboratorError ''network'')\<rparr>"
        "CollaboratorError ''network''" example_files]
  by (simp add: example_conf_def)

text \<open>
  Once the status bar exists the handler does what it is written for, and it is the only
  handler: an exception of the optimizer or of the generator ends the batch.
\<close>

lemma check_for_update_caught:
  assumes "WINDOWS c" and "updater_check c = Some e"
    and "status_bar w = Some m0" and "tr_update_error c \<noteq> []"
  shows "check_for_update c w =
     (Inr (), w\<lparr>trace := trace w @ [UpdaterCheck, ShowMessage (Text (tr_update_error c))],
               status_bar := Some (Text (tr_update_error c))\<rparr>)"
  using assms by (simp add: check_for_update_def status_msg_def show_message_def Let_def)

lemma optimize_raises:
  assumes "use_optimization c w = (True, w1)"
    and "optimize c path_new (files w1) = (Inl e, fs1)"
  shows "fst (process_file c path_orig path_new w) = Inl e"
  using assms by (simp add: process_file_def optimize_step_def Let_def)

lemma generator_raises:
  assumes "paths_list w \<noteq> []"
    and "apply_watermarks c (map (Path c) (paths_list w)) (text_edit w) (picture_edit w) = Raise e # items"
  shows "fst (process_all c w) = Inl e \<and> paths_list (snd (process_all c w)) = paths_list w"
  using assms by (simp add: process_all_cases Let_def)

subsection \<open>The order of the files of a batch\<close>

lemma process_all_apply_watermarks:
  "paths_list w \<noteq> [] \<Longrightarrow>
     filter is_apply_watermarks (trace (snd (process_all c w))) =
       filter is_apply_watermarks (trace w)
         @ [ApplyWatermarks (map (Path c) (paths_list w)) (text_edit w) (picture_edit w)]"
proof -
  assume ne: "paths_list w \<noteq> []"
  let ?w1 = "w\<lparr>CONF := (CONF w)\<lparr>conf_text := text_edit w, conf_picture := picture_edit w\<rparr>\<rparr>"
  let ?w2 = "?w1\<lparr>trace := trace ?w1 @
                 [ApplyWatermarks (map (Path c) (paths_list w)) (text_edit w) (picture_edit w)]\<rparr>"
  let ?items = "apply_watermarks c (map (Path c) (paths_list w)) (text_edit w) (picture_edit w)"
  obtain r w3 where l: "process_loop c ?items ?w2 = (r, w3)"
    by (cases "process_loop c ?items ?w2")
  have "batch_frame c ?w2 w3" using batch_frame_process_loop [of c ?w2 ?items] l by simp
  then have "filter is_apply_watermarks (trace w3) =
      filter is_apply_watermarks (trace w)
        @ [ApplyWatermarks (map (Path c) (paths_list w)) (text_edit w) (picture_edit w)]"
    by (simp add: batch_frame_def)
  then show ?thesis using ne l
    by (cases r) (simp_all add: process_all_cases Let_def button_ok_state_def)
qed

lemma run_sorted:
  "sorted (map (item_key c) (paths_list (snd (run c as (snd (init c cf fs))))))"
proof -
  have "paths_list (snd (init c cf fs)) = []"
  proof -
    have "paths_list (snd (check_for_update c (init_attributes cf fs))) = []"
      using batch_frame_status_msg [of c _ "tr_update_error c"]
      by (simp add: check_for_update_def Let_def init_attributes_def batch_frame_def
          split: option.splits)
    moreover have "paths_list (snd (status_msg c [] (status_bar_create w))) = paths_list w" for w
      using batch_frame_status_msg [of c "status_bar_create w" "[]"]
      by (simp add: batch_frame_def status_bar_create_def)
    ultimately show ?thesis
      by (simp add: init_cases Let_def window_create_def init_attributes_def)
  qed
  then show ?thesis using run_kept [of "snd (init c cf fs)" c as] by simp
qed

text \<open>
  Claim C7, as stated, at an input where it fails: \<^verbatim>\<open>b.png\<close> is dropped before \<^verbatim>\<open>a.jpg\<close>,
  and the batch hands \<^verbatim>\<open>a.jpg\<close> to the watermarking collaborator before \<^verbatim>\<open>b.png\<close>.
\<close>

theorem drop_order_counterexample:
  "filter is_apply_watermarks (trace (snd (process_all example_collab
      (drops example_collab [[''b.png''], [''a.jpg'']] (snd (init example_collab example_conf example_files))))))
     = [ApplyWatermarks [''a.jpg'', ''b.png''] ''sample'' []]
   \<and> [ApplyWatermarks [''a.jpg'', ''b.png''] ''sample'' []]
       \<noteq> [ApplyWatermarks [''b.png'', ''a.jpg''] ''sample'' []]"
proof -
  let ?w = "drops example_collab [[''b.png''], [''a.jpg'']] (snd (init example_collab example_conf example_files))"
  have w: "?w = example_window"
    unfolding example_window_eq
    by (simp add: example_collab_def example_conf_def init_def
      init_attributes_def status_msg_def show_message_def status_bar_create_def
      use_optimization_def use_optimization_refresh_def check_for_update_def window_create_def
      button_ok_state_def dropEvent_def exists_def addItem_def Let_def)
  show ?thesis unfolding w by (simp add: example_batch)
qed

text \<open>
  Claim C7, amended. A batch on a non-empty list makes one call of \<^verbatim>\<open>apply_watermarks\<close>,
  with the path that \<^verbatim>\<open>Path\<close> makes of each item of the list, in row order. The list widget
  sorts its items: after any drops on a new window the rows are the dropped texts, each
  once, in ascending order of the widget, and the list is in that order in every window
  reached from the construction. Two rows may make the same path.
\<close>

theorem process_all_hands_sorted_queue:
  "(paths_list w \<noteq> [] \<longrightarrow>
      filter is_apply_watermarks (trace (snd (process_all c w))) =
        filter is_apply_watermarks (trace w)
          @ [ApplyWatermarks (map (Path c) (paths_list w)) (text_edit w) (picture_edit w)])
   \<and> sorted (map (item_key c) (paths_list (drops c evs (window_create w))))
   \<and> distinct (paths_list (drops c evs (window_create w)))
   \<and> set (paths_list (drops c evs (window_create w))) = set (concat evs)
   \<and> sorted (map (item_key c) (paths_list (snd (run c as (snd (init c cf fs))))))"
proof -
  have e: "paths_list (window_create w) = []" by (simp add: window_create_def)
  show ?thesis
    using process_all_apply_watermarks [of w c] run_sorted [of c as cf fs]
      drops_sorted [of c "window_create w" evs] drops_distinct [of "window_create w" c evs]
      drops_set [of c evs "window_create w"]
    by (simp add: e)
qed

theorem process_all_hands_sorted_queue_witness:
  "filter is_apply_watermarks (trace (snd (process_all example_collab example_window))) =
     [ApplyWatermarks [''a.jpg'', ''b.png''] ''sample'' []]
   \<and> filter is_apply_watermarks (trace (snd (process_all example_collab
        (example_window\<lparr>paths_list := [''/tmp/./a.jpg'', ''/tmp/a.jpg'']\<rparr>)))) =
     [ApplyWatermarks [''/tmp/a.jpg'', ''/tmp/a.jpg''] ''sample'' []]
   \<and> sorted (paths_list (drops example_collab [[''b.png''], [''a.jpg'', ''b.png'']]
        (window_create example_window)))
   \<and> set (paths_list (drops example_collab [[''b.png''], [''a.jpg'', ''b.png'']]
        (window_create example_window))) = {''a.jpg'', ''b.png''}"
proof -
  let ?d = "example_window\<lparr>paths_list := [''/tmp/./a.jpg'', ''/tmp/a.jpg'']\<rparr>"
  note t = process_all_hands_sorted_queue
    [of example_window example_collab "[[''b.png''], [''a.jpg'', ''b.png'']]"]
  note td = process_all_hands_sorted_queue [of ?d example_collab]
  have ne: "paths_list example_window \<noteq> []" by (simp add: example_window_eq)
  have 1: "filter is_apply_watermarks (trace (snd (process_all example_collab example_window))) =
     [ApplyWatermarks [''a.jpg'', ''b.png''] ''sample'' []]"
    using t ne by (simp add: example_window_eq) (simp add: example_collab_def)
  have 2: "filter is_apply_watermarks (trace (snd (process_all example_collab ?d))) =
     [ApplyWatermarks [''/tmp/a.jpg'', ''/tmp/a.jpg''] ''sample'' []]"
    using td [THEN conjunct1] by (simp add: example_window_eq) (simp add: example_collab_def)
  have k: "item_key example_collab = (\<lambda>p. p)" by (simp add: example_collab_def)
  have 3: "sorted (paths_list (drops example_collab [[''b.png''], [''a.jpg'', ''b.png'']]
        (window_create example_window)))"
    using t [THEN conjunct2, THEN conjunct1] by (simp only: k list.map_ident)
  have 4: "set (paths_list (drops example_collab [[''b.png''], [''a.jpg'', ''b.png'']]
        (window_create example_window))) = {''a.jpg'', ''b.png''}"
    using t [THEN conjunct2, THEN conjunct2, THEN conjunct2, THEN conjunct1] by auto
  from 1 2 3 4 show ?thesis by blast
qed

subsection \<open>One file of the batch\<close>

lemma use_optimization_result:
  "use_optimization c w = (b, w1) \<Longrightarrow>
     cached_use_optimization w1 = Some b
     \<and> old_key w1 = Some (conf_tinify_key (CONF w1))
     \<and> old_state w1 = Some (conf_optimize (CONF w1))
     \<and> stats w1 = stats w \<and> files w1 = files w \<and> status_bar w1 = status_bar w"
  by (auto simp: use_optimization_def use_optimization_refresh_def Let_def
      split: option.splits if_splits)





subsection \<open>Skipped files\<close>

lemma optimize_step_stats [simp]: "stats (snd (optimize_step c path_new w)) = stats w"
proof -
  obtain use w1 where u: "use_optimization c w = (use, w1)" by (cases "use_optimization c w")
  have "stats w1 = stats w" using use_optimization_result [OF u] by simp
  then show ?thesis using u
    by (simp add: optimize_step_def unlink_def Let_def
        split: prod.splits sum.splits option.splits)
qed

lemma update_statistics_count:
  "fst (update_statistics c path_orig path_new w) = Inr () \<Longrightarrow>
     count (stats (snd (update_statistics c path_orig path_new w))) = count (stats w) + 1"
proof -
  assume ok: "fst (update_statistics c path_orig path_new w) = Inr ()"
  have m: "count (stats (snd (status_msg c [] w5))) = count (stats w5)" for w5 by simp
  show ?thesis using ok
    by (auto simp: update_statistics_def stat_size_def Let_def m
        split: prod.splits sum.splits option.splits
        dest!: arg_cong [where f = "\<lambda>x. count (stats (snd x))"])
qed

lemma process_file_count:
  "fst (process_file c path_orig path_new w) = Inr () \<Longrightarrow>
     count (stats (snd (process_file c path_orig path_new w))) = count (stats w) + 1"
proof -
  assume ok: "fst (process_file c path_orig path_new w) = Inr ()"
  obtain r w1 where o: "optimize_step c path_new w = (r, w1)"
    by (cases "optimize_step c path_new w")
  have s1: "stats w1 = stats w" using optimize_step_stats [of c path_new w] o by simp
  show ?thesis
  proof (cases r)
    case (Inl e)
    then show ?thesis using ok o by (simp add: process_file_def)
  next
    case (Inr path_out)
    then show ?thesis
      using ok o s1 update_statistics_count [of c path_orig path_out w1]
      by (simp add: process_file_def)
  qed
qed

lemma process_loop_count:
  "fst (process_loop c items w) = Inr () \<Longrightarrow>
     count (stats (snd (process_loop c items w))) =
       count (stats w) + int (length (filter produced items))"
proof (induction c items w rule: process_loop.induct)
  case (1 c w)
  then show ?case by simp
next
  case (2 c e items w)
  then show ?case by simp
next
  case (3 c path_orig effect items w)
  then show ?case by simp
next
  case (4 c path_orig path_new effect items w)
  let ?w0 = "w\<lparr>files := effect (files w)\<rparr>"
  obtain r w1 where p: "process_file c path_orig path_new ?w0 = (r, w1)"
    by (cases "process_file c path_orig path_new ?w0")
  show ?case
  proof (cases r)
    case (Inl e)
    then show ?thesis using "4.prems" p by simp
  next
    case (Inr u)
    have c1: "count (stats w1) = count (stats w) + 1"
      using process_file_count [of c path_orig path_new ?w0] p Inr by simp
    have ok: "fst (process_loop c items w1) = Inr ()" using "4.prems" p Inr by simp
    have "count (stats (snd (process_loop c items w1))) =
        count (stats w1) + int (length (filter produced items))"
      using "4.IH" [OF p [symmetric]] Inr ok by simp
    then show ?thesis using p Inr c1 by simp
  qed
qed

lemma process_loop_skipped:
  "list_all skipped items \<Longrightarrow>
     process_loop c items w = (Inr (), w\<lparr>files := effects items (files w)\<rparr>)"
proof (induction c items w rule: process_loop.induct)
  case (1 c w)
  show ?case by simp
next
  case (2 c e items w)
  then show ?case by simp
next
  case (3 c path_orig effect items w)
  then show ?case by simp
next
  case (4 c path_orig path_new effect items w)
  then show ?case by simp
qed

text \<open>
  Claim C2. A pair whose new path is \<^verbatim>\<open>None\<close> is passed over: the loop goes on with the
  next pair from the same window, in which only the file system may differ, by what the
  collaborator itself did. A batch whose pairs are all skipped returns without an error and
  with the statistics as they were. In a batch that returns, the count grows by the number
  of pairs with a new path; this holds for the loop and for \<^verbatim>\<open>_process_all\<close>.
\<close>

theorem skipped_files_add_nothing:
  "process_loop c (Yield path_orig None effect # items) w =
     process_loop c items (w\<lparr>files := effect (files w)\<rparr>)
   \<and> (list_all skipped items \<longrightarrow>
        process_loop c items w = (Inr (), w\<lparr>files := effects items (files w)\<rparr>))
   \<and> (fst (process_loop c items w) = Inr () \<longrightarrow>
        count (stats (snd (process_loop c items w))) =
          count (stats w) + int (length (filter produced items)))
   \<and> (paths_list w \<noteq> [] \<and> fst (process_all c w) = Inr () \<longrightarrow>
        count (stats (snd (process_all c w))) =
          count (stats w) + int (length (filter produced
            (apply_watermarks c (map (Path c) (paths_list w)) (text_edit w) (picture_edit w)))))"
proof -
  let ?w1 = "w\<lparr>CONF := (CONF w)\<lparr>conf_text := text_edit w, conf_picture := picture_edit w\<rparr>\<rparr>"
  let ?w2 = "?w1\<lparr>trace := trace ?w1 @
                 [ApplyWatermarks (map (Path c) (paths_list w)) (text_edit w) (picture_edit w)]\<rparr>"
  let ?items = "apply_watermarks c (map (Path c) (paths_list w)) (text_edit w) (picture_edit w)"
  have all: "count (stats (snd (process_all c w))) =
      count (stats w) + int (length (filter produced ?items))"
    if ne: "paths_list w \<noteq> []" and ok: "fst (process_all c w) = Inr ()"
  proof -
    obtain r w3 where l: "process_loop c ?items ?w2 = (r, w3)"
      by (cases "process_loop c ?items ?w2")
    have r: "r = Inr ()" using ne ok l by (cases r) (simp_all add: process_all_cases Let_def)
    have "count (stats w3) = count (stats ?w2) + int (length (filter produced ?items))"
      using process_loop_count [of c ?items ?w2] l r by simp
    then show ?thesis using ne l r by (simp add: process_all_cases Let_def)
  qed
  show ?thesis
    using all process_loop_skipped [of items c w] process_loop_count [of c items w]
    by simp
qed

theorem skipped_files_add_nothing_witness:
  "fst (process_all example_collab example_window) = Inr ()
   \<and> stats (snd (process_all example_collab example_window)) =
       \<lparr>count = 1, size_before = 100, size_after = 70\<rparr>
   \<and> filter produced (apply_watermarks example_collab [''a.jpg'', ''b.png''] ''sample'' []) =
       [Yield ''a.jpg'' (Some ''a-w.jpg'') (\<lambda>fs. fs(''a-w.jpg'' \<mapsto> 120))]
   \<and> process_loop example_collab
        (apply_watermarks example_collab [''b.png'', ''c.gif''] ''sample'' []) example_window =
       (Inr (), example_window)"
proof -
  have ne: "paths_list example_window \<noteq> []" by (simp add: example_window_eq)
  have ok: "fst (process_all example_collab example_window) = Inr ()"
    by (simp add: example_batch)
  have f: "filter produced (apply_watermarks example_collab [''a.jpg'', ''b.png''] ''sample'' []) =
       [Yield ''a.jpg'' (Some ''a-w.jpg'') (\<lambda>fs. fs(''a-w.jpg'' \<mapsto> 120))]"
    by (simp add: example_collab_def)
  have "count (stats (snd (process_all example_collab example_window))) =
      count (stats example_window) + int (length (filter produced
        (apply_watermarks example_collab (map (Path example_collab) (paths_list example_window))
           (text_edit example_window) (picture_edit example_window))))"
    using skipped_files_add_nothing [of example_collab _ _ _ example_window] ne ok by blast
  then have c: "count (stats (snd (process_all example_collab example_window))) = 1"
    by (simp add: example_window_eq example_collab_def)
  let ?skips = "apply_watermarks example_collab [''b.png'', ''c.gif''] ''sample'' []"
  have sk: "list_all skipped ?skips" by (simp add: example_collab_def)
  have "process_loop example_collab ?skips example_window =
      (Inr (), example_window\<lparr>files := effects ?skips (files example_window)\<rparr>)"
    using skipped_files_add_nothing [of example_collab _ _ ?skips example_window] sk by blast
  then have l: "process_loop example_collab ?skips example_window = (Inr (), example_window)"
    by (simp add: example_collab_def)
  show ?thesis using ok c f l by (simp add: example_batch)
qed

subsection \<open>The list after a batch\<close>

text \<open>
  Claim C3. A batch on a non-empty list that returns leaves the list empty and has
  recomputed the button, which is then disabled: the call of \<^verbatim>\<open>setEnabled(False)\<close> is the
  last of the trace. This does not depend on the pairs generated; when every pair is
  skipped the batch returns, so the list is emptied with no file produced.
\<close>

theorem process_all_empties_queue:
  "(paths_list w \<noteq> [] \<and> fst (process_all c w) = Inr () \<longrightarrow>
      paths_list (snd (process_all c w)) = []
      \<and> \<not> buttons (snd (process_all c w))
      \<and> last (trace (snd (process_all c w))) = SetEnabled False)
   \<and> (paths_list w \<noteq> []
       \<and> list_all skipped (apply_watermarks c (map (Path c) (paths_list w)) (text_edit w) (picture_edit w)) \<longrightarrow>
      fst (process_all c w) = Inr ()
      \<and> paths_list (snd (process_all c w)) = []
      \<and> stats (snd (process_all c w)) = stats w)"
proof -
  let ?w1 = "w\<lparr>CONF := (CONF w)\<lparr>conf_text := text_edit w, conf_picture := picture_edit w\<rparr>\<rparr>"
  let ?w2 = "?w1\<lparr>trace := trace ?w1 @
                 [ApplyWatermarks (map (Path c) (paths_list w)) (text_edit w) (picture_edit w)]\<rparr>"
  let ?items = "apply_watermarks c (map (Path c) (paths_list w)) (text_edit w) (picture_edit w)"
  obtain r w3 where l: "process_loop c ?items ?w2 = (r, w3)"
    by (cases "process_loop c ?items ?w2")
  have returned: "paths_list (snd (process_all c w)) = []
      \<and> \<not> buttons (snd (process_all c w))
      \<and> last (trace (snd (process_all c w))) = SetEnabled False"
    if "paths_list w \<noteq> []" and "fst (process_all c w) = Inr ()"
    using that l by (cases r) (simp_all add: process_all_cases Let_def button_ok_state_def)
  have skipped: "fst (process_all c w) = Inr ()
      \<and> paths_list (snd (process_all c w)) = []
      \<and> stats (snd (process_all c w)) = stats w"
    if "paths_list w \<noteq> []" and "list_all skipped ?items"
    using that process_loop_skipped [of ?items c ?w2]
    by (simp add: process_all_cases Let_def)
  from returned skipped show ?thesis by blast
qed

theorem process_all_empties_queue_witness:
  "paths_list example_window = [''a.jpg'', ''b.png'']
   \<and> paths_list (snd (process_all example_collab example_window)) = []
   \<and> \<not> buttons (snd (process_all example_collab example_window))
   \<and> paths_list (snd (process_all example_collab
        (example_window\<lparr>paths_list := [''b.png'']\<rparr>))) = []
   \<and> stats (snd (process_all example_collab
        (example_window\<lparr>paths_list := [''b.png'']\<rparr>))) = stats example_window"
proof -
  let ?wb = "example_window\<lparr>paths_list := [''b.png'']\<rparr>"
  have ne: "paths_list example_window \<noteq> []" by (simp add: example_window_eq)
  have ok: "fst (process_all example_collab example_window) = Inr ()"
    by (simp add: example_batch)
  have a: "paths_list (snd (process_all example_collab example_window)) = []
      \<and> \<not> buttons (snd (process_all example_collab example_window))"
    using process_all_empties_queue [of example_window example_collab] ne ok by blast
  have sk: "paths_list ?wb \<noteq> []
      \<and> list_all skipped (apply_watermarks example_collab (map (Path example_collab) (paths_list ?wb))
           (text_edit ?wb) (picture_edit ?wb))"
    by (simp add: example_collab_def)
  have b: "paths_list (snd (process_all example_collab ?wb)) = []
      \<and> stats (snd (process_all example_collab ?wb)) = stats ?wb"
    using process_all_empties_queue [of ?wb example_collab] sk by blast
  show ?thesis using a b by (simp add: example_window_eq)
qed

subsection \<open>The rule of the OK button\<close>





end
